theory Spec2Isabelle
  imports Complex_Main "HOL-Library.Word"
begin

section \<open>Python values used by the PDF toolbox\<close>

text \<open>
  The toolbox (\<^verbatim>\<open>app.py\<close>) is a Python program. A Python \<^verbatim>\<open>str\<close> is modelled as a
  \<^typ>\<open>string\<close> whose characters are the code points below 256, a Python \<^verbatim>\<open>int\<close> as an
  \<^typ>\<open>int\<close>, \<^verbatim>\<open>bytes\<close> as a list of 8-bit words, and a raised exception as the left
  summand of a sum type. Code points from 256 on are outside the model: there \<^verbatim>\<open>int\<close>
  also accepts the other decimal digits and spaces of Unicode, and raises a ValueError for
  every other character, as it does below 256.
\<close>

type_synonym bytes = "8 word list"

datatype py_error = ValueError | IndexError | LibraryError string

subsection \<open>\<^verbatim>\<open>str.replace\<close>, \<^verbatim>\<open>str.split\<close>, \<^verbatim>\<open>in\<close>\<close>

definition replace_space :: "string \<Rightarrow> string" where
  \<comment> \<open>\<^verbatim>\<open>s.replace(" ", "")\<close>: every U+0020 is removed, no other white space is.\<close>
  "replace_space s = filter (\<lambda>c. c \<noteq> CHR '' '') s"

fun split_from :: "char \<Rightarrow> string \<Rightarrow> string \<Rightarrow> string list" where
  "split_from sep cur [] = [rev cur]"
| "split_from sep cur (c # cs) =
     (if c = sep then rev cur # split_from sep [] cs else split_from sep (c # cur) cs)"

definition py_split :: "char \<Rightarrow> string \<Rightarrow> string list" where
  \<comment> \<open>\<^verbatim>\<open>s.split(sep)\<close> for a one-character separator: empty pieces are kept, and the
      empty string gives one empty piece.\<close>
  "py_split sep s = split_from sep [] s"

subsection \<open>\<^verbatim>\<open>int(str)\<close>\<close>

definition int_max_str_digits :: nat where
  \<comment> \<open>CPython's default limit on the digits of a decimal literal; 0 would switch it off.\<close>
  "int_max_str_digits = 4300"

definition int_space :: "char \<Rightarrow> bool" where
  \<comment> \<open>What \<^verbatim>\<open>int\<close> skips around a literal: TAB, LF, VT, FF, CR, space, and the
      two spaces U+0085 and U+00A0 that it first rewrites to a space.\<close>
  "int_space c \<longleftrightarrow>
     (let n = (of_char c :: nat) in (9 \<le> n \<and> n \<le> 13) \<or> n = 32 \<or> n = 133 \<or> n = 160)"

definition is_digit :: "char \<Rightarrow> bool" where
  "is_digit c \<longleftrightarrow> (let n = (of_char c :: nat) in 48 \<le> n \<and> n \<le> 57)"

definition digit_value :: "char \<Rightarrow> int" where
  "digit_value c = int (of_char c) - 48"

definition literal_char :: "char \<Rightarrow> bool" where
  "literal_char c \<longleftrightarrow> is_digit c \<or> c = CHR ''_''"

fun double_underscore :: "string \<Rightarrow> bool" where
  "double_underscore (a # b # r) = ((a = CHR ''_'' \<and> b = CHR ''_'') \<or> double_underscore (b # r))"
| "double_underscore _ = False"

definition py_int :: "string \<Rightarrow> py_error + int" where
  \<comment> \<open>\<^verbatim>\<open>int(s)\<close> in base 10: optional white space, an optional sign, digits with single
      underscores between them, optional white space; anything else is a ValueError.\<close>
  "py_int s =
     (let s1 = dropWhile int_space s;
          (sign, s2) = (case s1 of
                          [] \<Rightarrow> (1, s1)
                        | c # r \<Rightarrow> if c = CHR ''+'' then (1, r)
                                   else if c = CHR ''-'' then (- 1, r) else (1, s1));
          body = takeWhile literal_char s2;
          rest = dropWhile literal_char s2;
          digits = filter is_digit body
      in if body = [] \<or> hd body = CHR ''_'' \<or> last body = CHR ''_'' \<or> double_underscore body
            \<or> dropWhile int_space rest \<noteq> []
         then Inl ValueError
         else if 0 < int_max_str_digits \<and> int_max_str_digits < length digits
         then Inl ValueError
         else Inr (sign * foldl (\<lambda>n c. 10 * n + digit_value c) 0 digits))"

section \<open>The page-range parser\<close>

definition unpack2 :: "string list \<Rightarrow> py_error + string \<times> string" where
  \<comment> \<open>\<^verbatim>\<open>start, end = pieces\<close>: any number of pieces other than two is a ValueError.\<close>
  "unpack2 pieces = (case pieces of [a, b] \<Rightarrow> Inr (a, b) | _ \<Rightarrow> Inl ValueError)"

definition add_valid :: "int \<Rightarrow> int \<Rightarrow> int set \<Rightarrow> int set" where
  \<comment> \<open>\<^verbatim>\<open>if 1 <= i <= total_pages: pages.add(i - 1)\<close>\<close>
  "add_valid total_pages i pages =
     (if 1 \<le> i \<and> i \<le> total_pages then insert (i - 1) pages else pages)"

definition parse_part :: "string \<Rightarrow> int \<Rightarrow> int set \<Rightarrow> py_error + int set" where
  \<comment> \<open>The two \<^verbatim>\<open>try\<close> bodies of the loop, before their \<^verbatim>\<open>except\<close> clause.\<close>
  "parse_part part total_pages pages =
     (if CHR ''-'' \<in> set part then
        (case unpack2 (py_split CHR ''-'' part) of
           Inl e \<Rightarrow> Inl e
         | Inr (s, e) \<Rightarrow>
             (case py_int s of
                Inl err \<Rightarrow> Inl err
              | Inr start \<Rightarrow>
                  (case py_int e of
                     Inl err \<Rightarrow> Inl err
                   | Inr end \<Rightarrow> Inr (fold (add_valid total_pages) [start..end] pages))))
      else
        (case py_int part of
           Inl err \<Rightarrow> Inl err
         | Inr page \<Rightarrow> Inr (add_valid total_pages page pages)))"

fun parse_loop :: "string list \<Rightarrow> int \<Rightarrow> int set \<Rightarrow> py_error + int set" where
  "parse_loop [] total_pages pages = Inr pages"
| "parse_loop (part # parts) total_pages pages =
     (case parse_part part total_pages pages of
        Inr pages' \<Rightarrow> parse_loop parts total_pages pages'
      | Inl ValueError \<Rightarrow> parse_loop parts total_pages pages
      | Inl e \<Rightarrow> Inl e)"

definition parse_page_range :: "string \<Rightarrow> int \<Rightarrow> py_error + int list" where
  "parse_page_range range_str total_pages =
     (let parts = py_split CHR '','' (replace_space range_str)
      in case parse_loop parts total_pages {} of
           Inl e \<Rightarrow> Inl e
         | Inr pages \<Rightarrow> Inr (sorted_list_of_set pages))"

section \<open>The documents and the library\<close>

text \<open>
  The toolbox reads and writes documents through the library \<^verbatim>\<open>pypdf\<close>, which is not
  part of the program. A document is its ordered pages and its optional metadata; pages
  and metadata stay abstract. Reading a byte buffer and writing a document are operations
  of the library that may raise, and so are the two compression passes: they are the
  fields of a record that every operation of the toolbox takes as its first argument.
\<close>

record ('p, 'm) pdf =
  pdf_pages :: "'p list"
  pdf_metadata :: "'m option"

record ('p, 'm) pypdf =
  PdfReader :: "bytes \<Rightarrow> py_error + ('p, 'm) pdf"
  write_pdf :: "('p, 'm) pdf \<Rightarrow> py_error + bytes"
  compress_content_streams :: "'p \<Rightarrow> py_error + 'p"
  compress_identical_objects :: "('p, 'm) pdf \<Rightarrow> py_error + ('p, 'm) pdf"

definition PdfWriter :: "('p, 'm) pdf" where
  \<comment> \<open>\<^verbatim>\<open>PdfWriter()\<close> and \<^verbatim>\<open>PdfMerger()\<close>: a fresh output document without pages.\<close>
  "PdfWriter = \<lparr>pdf_pages = [], pdf_metadata = None\<rparr>"

definition add_page :: "('p, 'm) pdf \<Rightarrow> 'p \<Rightarrow> ('p, 'm) pdf" where
  \<comment> \<open>Modelled from the spec: \<^verbatim>\<open>PdfWriter.add_page\<close> of pypdf, which is not part of
      the program's source; the page is put at the end of the output document, which for
      splitting holds exactly that one page.\<close>
  "add_page writer page = writer\<lparr>pdf_pages := pdf_pages writer @ [page]\<rparr>"

definition add_metadata :: "('p, 'm) pdf \<Rightarrow> 'm \<Rightarrow> ('p, 'm) pdf" where
  \<comment> \<open>Modelled from the spec: \<^verbatim>\<open>PdfWriter.add_metadata\<close> of pypdf, which is not part
      of the program's source; the output document takes the metadata.\<close>
  "add_metadata writer md = writer\<lparr>pdf_metadata := Some md\<rparr>"

definition append :: "('p, 'm) pypdf \<Rightarrow> ('p, 'm) pdf \<Rightarrow> bytes \<Rightarrow> py_error + ('p, 'm) pdf" where
  \<comment> \<open>Modelled from the spec: \<^verbatim>\<open>PdfMerger.append\<close> of pypdf, which is not part of the
      program's source; the source is read and its pages, in that source's original order,
      are appended to the output document. A source that cannot be read raises.\<close>
  "append lib merger pdf_bytes =
     (case PdfReader lib pdf_bytes of
        Inl e \<Rightarrow> Inl e
      | Inr source \<Rightarrow> Inr (merger\<lparr>pdf_pages := pdf_pages merger @ pdf_pages source\<rparr>))"

definition getitem :: "'a list \<Rightarrow> int \<Rightarrow> py_error + 'a" where
  \<comment> \<open>\<^verbatim>\<open>reader.pages[page_idx]\<close>: an index from 0 up to the length reads from the front,
      one from minus the length up to -1 reads from the back, any other raises.\<close>
  "getitem xs page_idx =
     (if 0 \<le> page_idx \<and> page_idx < int (length xs) then Inr (xs ! nat page_idx)
      else if - int (length xs) \<le> page_idx \<and> page_idx < 0
      then Inr (xs ! nat (int (length xs) + page_idx))
      else Inl IndexError)"

subsection \<open>\<^verbatim>\<open>str(int)\<close>\<close>

fun nat_digits :: "nat \<Rightarrow> string" where
  "nat_digits n =
     (if n < 10 then [''0123456789'' ! n]
      else nat_digits (n div 10) @ [''0123456789'' ! (n mod 10)])"

declare nat_digits.simps [simp del]

definition py_str :: "int \<Rightarrow> string" where
  "py_str i = (if i < 0 then CHR ''-'' # nat_digits (nat (- i)) else nat_digits (nat i))"

section \<open>Splitting\<close>

definition pages_to_split ::
  "('p, 'm) pdf \<Rightarrow> string \<Rightarrow> string \<Rightarrow> py_error + int list" where
  "pages_to_split reader mode page_range =
     (let total_pages = int (length (pdf_pages reader))
      in if mode = ''all'' then Inr [0..total_pages - 1]
         else parse_page_range page_range total_pages)"

definition split_page ::
  "('p, 'm) pypdf \<Rightarrow> ('p, 'm) pdf \<Rightarrow> int \<Rightarrow> py_error + string \<times> bytes" where
  \<comment> \<open>The body of the loop of \<^verbatim>\<open>split_pdf\<close>.\<close>
  "split_page lib reader page_idx =
     (case getitem (pdf_pages reader) page_idx of
        Inl e \<Rightarrow> Inl e
      | Inr page \<Rightarrow>
          (case write_pdf lib (add_page PdfWriter page) of
             Inl e \<Rightarrow> Inl e
           | Inr output \<Rightarrow> Inr (''page_'' @ py_str (page_idx + 1) @ ''.pdf'', output)))"

fun split_loop ::
  "('p, 'm) pypdf \<Rightarrow> ('p, 'm) pdf \<Rightarrow> int list \<Rightarrow> (string \<times> bytes) list
     \<Rightarrow> py_error + (string \<times> bytes) list" where
  "split_loop lib reader [] results = Inr results"
| "split_loop lib reader (page_idx # rest) results =
     (case split_page lib reader page_idx of
        Inl e \<Rightarrow> Inl e
      | Inr r \<Rightarrow> split_loop lib reader rest (results @ [r]))"

definition split_pdf ::
  "('p, 'm) pypdf \<Rightarrow> bytes \<Rightarrow> string \<Rightarrow> string \<Rightarrow> py_error + (string \<times> bytes) list" where
  "split_pdf lib input_bytes mode page_range =
     (case PdfReader lib input_bytes of
        Inl e \<Rightarrow> Inl e
      | Inr reader \<Rightarrow>
          (case pages_to_split reader mode page_range of
             Inl e \<Rightarrow> Inl e
           | Inr idxs \<Rightarrow> split_loop lib reader idxs []))"

section \<open>Merging\<close>

fun merge_loop ::
  "('p, 'm) pypdf \<Rightarrow> bytes list \<Rightarrow> ('p, 'm) pdf \<Rightarrow> py_error + ('p, 'm) pdf" where
  "merge_loop lib [] merger = Inr merger"
| "merge_loop lib (pdf_bytes # files) merger =
     (case append lib merger pdf_bytes of
        Inl e \<Rightarrow> Inl e
      | Inr merger' \<Rightarrow> merge_loop lib files merger')"

definition merge_pdfs :: "('p, 'm) pypdf \<Rightarrow> bytes list \<Rightarrow> py_error + bytes" where
  "merge_pdfs lib files =
     (case merge_loop lib files PdfWriter of
        Inl e \<Rightarrow> Inl e
      | Inr merger \<Rightarrow> write_pdf lib merger)"

section \<open>Compressing\<close>

text \<open>
  The reduction is a Python \<^verbatim>\<open>float\<close>. A float is modelled as the real number it stands
  for, and every float operation as the exact operation followed by the rounding \<open>fl\<close> of
  the result, which the functions take as an argument.
\<close>

record stats =
  original_size :: int
  compressed_size :: int
  reduction :: real

definition truediv :: "(real \<Rightarrow> real) \<Rightarrow> int \<Rightarrow> int \<Rightarrow> real" where
  \<comment> \<open>\<^verbatim>\<open>a / b\<close> on two ints with \<open>b \<noteq> 0\<close>: the quotient, rounded once.\<close>
  "truediv fl a b = fl (real_of_int a / real_of_int b)"

definition fmul :: "(real \<Rightarrow> real) \<Rightarrow> real \<Rightarrow> real \<Rightarrow> real" where
  "fmul fl x y = fl (x * y)"

definition compression_stats :: "(real \<Rightarrow> real) \<Rightarrow> bytes \<Rightarrow> bytes \<Rightarrow> stats" where
  "compression_stats fl input_bytes output_bytes =
     (let original_size = int (length input_bytes);
          compressed_size = int (length output_bytes);
          reduction = (if original_size > 0
                       then fmul fl (truediv fl (original_size - compressed_size) original_size) 100
                       else 0)
      in \<lparr>original_size = original_size, compressed_size = compressed_size,
          reduction = reduction\<rparr>)"

fun compress_pages :: "('p, 'm) pypdf \<Rightarrow> 'p list \<Rightarrow> py_error + 'p list" where
  \<comment> \<open>\<^verbatim>\<open>for page in writer.pages: page.compress_content_streams()\<close>\<close>
  "compress_pages lib [] = Inr []"
| "compress_pages lib (page # rest) =
     (case compress_content_streams lib page of
        Inl e \<Rightarrow> Inl e
      | Inr page' \<Rightarrow>
          (case compress_pages lib rest of
             Inl e \<Rightarrow> Inl e
           | Inr rest' \<Rightarrow> Inr (page' # rest')))"

definition compress_pdf ::
  "('p, 'm) pypdf \<Rightarrow> (real \<Rightarrow> real) \<Rightarrow> bytes \<Rightarrow> string \<Rightarrow> py_error + bytes \<times> stats" where
  "compress_pdf lib fl input_bytes quality =
     (case PdfReader lib input_bytes of
        Inl e \<Rightarrow> Inl e
      | Inr reader \<Rightarrow>
          (let writer = fold (\<lambda>page writer. add_page writer page) (pdf_pages reader) PdfWriter;
               writer = (case pdf_metadata reader of
                           None \<Rightarrow> writer
                         | Some md \<Rightarrow> add_metadata writer md)
           in case compress_pages lib (pdf_pages writer) of
                Inl e \<Rightarrow> Inl e
              | Inr compressed \<Rightarrow>
                  (case compress_identical_objects lib (writer\<lparr>pdf_pages := compressed\<rparr>) of
                     Inl e \<Rightarrow> Inl e
                   | Inr writer \<Rightarrow>
                       (case write_pdf lib writer of
                          Inl e \<Rightarrow> Inl e
                        | Inr output_bytes \<Rightarrow>
                            Inr (output_bytes,
                                 compression_stats fl input_bytes output_bytes)))))"

section \<open>What the specification says of a range expression\<close>

text \<open>
  The specification describes the parser by its tokens: a token is a single integer \<open>N\<close>
  or a closed range \<open>A-B\<close>, anything else is malformed and contributes nothing, and what
  lies outside \<open>[1, total_pages]\<close> is dropped. The definitions below follow these words;
  an integer is what \<^const>\<open>py_int\<close> accepts. They are compared with the parser of the
  program in the theorems.
\<close>

definition token_interval :: "string \<Rightarrow> (int \<times> int) option" where
  \<comment> \<open>The closed interval of 1-based pages a token denotes, \<open>None\<close> for a malformed one.\<close>
  "token_interval tok =
     (case py_split CHR ''-'' tok of
        [n] \<Rightarrow> (case py_int n of Inl _ \<Rightarrow> None | Inr v \<Rightarrow> Some (v, v))
      | [a, b] \<Rightarrow>
          (case py_int a of
             Inl _ \<Rightarrow> None
           | Inr x \<Rightarrow> (case py_int b of Inl _ \<Rightarrow> None | Inr y \<Rightarrow> Some (x, y)))
      | _ \<Rightarrow> None)"

definition token_pages :: "string \<Rightarrow> int \<Rightarrow> int set" where
  \<comment> \<open>The 0-based indices a token selects in a document of \<open>total_pages\<close> pages.\<close>
  "token_pages tok total_pages =
     (case token_interval tok of
        None \<Rightarrow> {}
      | Some (a, b) \<Rightarrow> (\<lambda>i. i - 1) ` {max 1 a..min b total_pages})"

definition tokens :: "string \<Rightarrow> string list" where
  \<comment> \<open>Comma-separated tokens, spaces ignored.\<close>
  "tokens expr = py_split CHR '','' (replace_space expr)"

definition spec_parse_range :: "string \<Rightarrow> int \<Rightarrow> int list" where
  "spec_parse_range expr total_pages =
     sorted_list_of_set (\<Union>tok \<in> set (tokens expr). token_pages tok total_pages)"

definition token_char :: "char \<Rightarrow> bool" where
  \<comment> \<open>The characters a well-formed token can be made of.\<close>
  "token_char c \<longleftrightarrow>
     is_digit c \<or> c = CHR ''_'' \<or> c = CHR ''+'' \<or> c = CHR ''-'' \<or> int_space c"

section \<open>A small instance of the library\<close>

text \<open>
  An instance of the library interface on which the theorems can be run: a document has
  one page per byte and no metadata, the byte 0 can be neither read nor written, the byte
  255 can be read but not written, and the compression passes leave the document as it is.
\<close>

definition byte_pypdf :: "(8 word, unit) pypdf" where
  "byte_pypdf =
     \<lparr>PdfReader = (\<lambda>b. if 0 \<in> set b then Inl (LibraryError ''cannot read'')
                       else Inr \<lparr>pdf_pages = b, pdf_metadata = None\<rparr>),
      write_pdf = (\<lambda>d. if 0 \<in> set (pdf_pages d) \<or> 255 \<in> set (pdf_pages d)
                       then Inl (LibraryError ''cannot write'')
                       else Inr (pdf_pages d)),
      compress_content_streams = (\<lambda>page. Inr page),
      compress_identical_objects = (\<lambda>d. Inr d)\<rparr>"

section \<open>Properties of the page-range parser\<close>

subsection \<open>The pieces of a split and the characters of an integer literal\<close>

lemma py_int_error: "py_int s = Inl e \<Longrightarrow> e = ValueError"
  by (auto simp: py_int_def Let_def split: if_splits list.splits prod.splits)

lemma unpack2_error: "unpack2 ps = Inl e \<Longrightarrow> e = ValueError"
  by (auto simp: unpack2_def split: list.splits)

lemma parse_part_error: "parse_part part tp pages = Inl e \<Longrightarrow> e = ValueError"
  by (auto simp: parse_part_def split: if_splits sum.splits prod.splits dest: py_int_error unpack2_error)

lemma fold_add_valid:
  "fold (add_valid tp) xs pages = pages \<union> (\<lambda>i. i - 1) ` {i \<in> set xs. 1 \<le> i \<and> i \<le> tp}"
  by (induction xs arbitrary: pages) (auto simp: add_valid_def)

lemma split_from_no_sep: "sep \<notin> set s \<Longrightarrow> split_from sep cur s = [rev cur @ s]"
  by (induction s arbitrary: cur) auto

lemma split_from_length: "length (split_from sep cur s) = Suc (count_list s sep)"
  by (induction s arbitrary: cur) auto

lemma split_from_chars:
  "\<Union>(set ` set (split_from sep cur s)) = set cur \<union> (set s - {sep})"
  by (induction s arbitrary: cur) auto

lemma dropWhile_cases: "c \<in> set xs \<Longrightarrow> P c \<or> c \<in> set (dropWhile P xs)"
  by (metis takeWhile_dropWhile_id set_append UnE set_takeWhileD)

lemma py_int_shape:
  assumes "py_int s = Inr v"
  obtains s2 where
    "dropWhile int_space s = s2 \<or> dropWhile int_space s = CHR ''+'' # s2
       \<or> dropWhile int_space s = CHR ''-'' # s2"
    and "dropWhile int_space (dropWhile literal_char s2) = []"
proof (cases "dropWhile int_space s")
  case Nil
  with assms show ?thesis
    by (simp add: py_int_def)
next
  case (Cons x r)
  show ?thesis
  proof (cases "x = CHR ''+'' \<or> x = CHR ''-''")
    case True
    with assms Cons have "dropWhile int_space (dropWhile literal_char r) = []"
      by (auto simp: py_int_def Let_def split: if_splits)
    with True Cons that [of r] show ?thesis
      by blast
  next
    case False
    with assms Cons have "dropWhile int_space (dropWhile literal_char (x # r)) = []"
      by (simp add: py_int_def Let_def split: if_splits)
    with Cons that [of "x # r"] show ?thesis
      by simp
  qed
qed

lemma py_int_chars:
  assumes "py_int s = Inr v" and "c \<in> set s"
  shows "token_char c"
proof -
  from assms(1) obtain s2 where
    s1: "dropWhile int_space s = s2 \<or> dropWhile int_space s = CHR ''+'' # s2
           \<or> dropWhile int_space s = CHR ''-'' # s2"
    and rest: "dropWhile int_space (dropWhile literal_char s2) = []"
    by (rule py_int_shape)
  have tail: "token_char x" if "x \<in> set s2" for x
  proof -
    from that have "literal_char x \<or> x \<in> set (dropWhile literal_char s2)"
      by (rule dropWhile_cases)
    moreover have "int_space y" if "y \<in> set (dropWhile literal_char s2)" for y
      using dropWhile_cases [OF that, of int_space] rest by simp
    ultimately show ?thesis
      by (auto simp: token_char_def literal_char_def)
  qed
  from assms(2) have "int_space c \<or> c \<in> set (dropWhile int_space s)"
    by (rule dropWhile_cases)
  then show ?thesis
  proof
    assume "int_space c"
    then show ?thesis by (simp add: token_char_def)
  next
    assume c: "c \<in> set (dropWhile int_space s)"
    from s1 consider "c \<in> set s2" | "c = CHR ''+''" | "c = CHR ''-''"
      using c by auto
    then show ?thesis
    proof cases
      case 1
      then show ?thesis by (rule tail)
    qed (simp_all add: token_char_def)
  qed
qed

lemma add_valid_interval:
  "add_valid tp v pages = pages \<union> (\<lambda>i. i - 1) ` {max 1 v..min v tp}"
  by (auto simp: add_valid_def)

lemma fold_add_valid_interval:
  "fold (add_valid tp) [a..b] pages = pages \<union> (\<lambda>i. i - 1) ` {max 1 a..min b tp}"
proof -
  have "{i \<in> set [a..b]. 1 \<le> i \<and> i \<le> tp} = {max 1 a..min b tp}"
    by auto
  then show ?thesis
    by (simp add: fold_add_valid)
qed

lemma parse_part_spec:
  "parse_part part tp pages =
     (case token_interval part of
        None \<Rightarrow> Inl ValueError
      | Some (a, b) \<Rightarrow> Inr (pages \<union> token_pages part tp))"
proof (cases "CHR ''-'' \<in> set part")
  case False
  then have sp: "py_split CHR ''-'' part = [part]"
    by (simp add: py_split_def split_from_no_sep)
  show ?thesis
    using False
    by (auto simp: parse_part_def token_interval_def token_pages_def sp add_valid_interval
        split: sum.splits dest: py_int_error)
next
  case True
  then have "2 \<le> length (py_split CHR ''-'' part)"
    using count_list_0_iff [of part "CHR ''-''"]
    by (simp add: py_split_def split_from_length Suc_le_eq)
  then obtain x y zs where sp: "py_split CHR ''-'' part = x # y # zs"
    by (cases "py_split CHR ''-'' part" rule: list.exhaust [case_product list.exhaust])
      (auto simp: Suc_le_eq neq_Nil_conv)
  show ?thesis
    using True
    by (cases zs)
      (auto simp: parse_part_def token_interval_def token_pages_def sp unpack2_def
        fold_add_valid_interval split: sum.splits dest: py_int_error)
qed

lemma parse_loop_spec:
  "parse_loop parts tp pages = Inr (pages \<union> (\<Union>tok \<in> set parts. token_pages tok tp))"
proof (induction parts arbitrary: pages)
  case Nil
  show ?case by simp
next
  case (Cons part parts)
  show ?case
  proof (cases "token_interval part")
    case None
    then show ?thesis
      by (simp add: parse_part_spec Cons.IH token_pages_def)
  next
    case (Some ab)
    then show ?thesis
      by (cases ab) (simp add: parse_part_spec Cons.IH Un_assoc)
  qed
qed

lemma parse_page_range_spec:
  "parse_page_range expr tp = Inr (spec_parse_range expr tp)"
  by (simp add: parse_page_range_def spec_parse_range_def tokens_def parse_loop_spec)

lemma token_pages_finite: "finite (token_pages tok tp)"
  by (auto simp: token_pages_def split: option.splits)

lemma token_pages_bounds: "p \<in> token_pages tok tp \<Longrightarrow> 0 \<le> p \<and> p < tp"
  by (auto simp: token_pages_def split: option.splits)

lemma spec_parse_range_set:
  "set (spec_parse_range expr tp) =
     (\<Union>tok \<in> set (tokens expr). token_pages tok tp)"
  by (simp add: spec_parse_range_def token_pages_finite)

lemma token_non_numeric:
  assumes "c \<in> set tok" and "\<not> token_char c"
  shows "token_interval tok = None"
proof -
  have "c \<noteq> CHR ''-''"
    using assms(2) by (auto simp: token_char_def)
  with assms(1) have "c \<in> \<Union>(set ` set (py_split CHR ''-'' tok))"
    by (simp add: py_split_def split_from_chars)
  then obtain piece where piece: "piece \<in> set (py_split CHR ''-'' tok)" "c \<in> set piece"
    by blast
  then have bad: "py_int piece = Inl ValueError"
    using assms(2) py_int_chars [of piece _ c] py_int_error [of piece]
    by (cases "py_int piece") auto
  show ?thesis
    using piece(1) bad
    by (auto simp: token_interval_def split: list.splits sum.splits)
qed

lemma token_bad_range:
  assumes "2 \<le> count_list tok CHR ''-''"
  shows "token_interval tok = None"
proof -
  have "3 \<le> length (py_split CHR ''-'' tok)"
    using assms by (simp add: py_split_def split_from_length)
  then show ?thesis
    by (auto simp: token_interval_def split: list.splits)
qed

subsection \<open>The selection of a range expression\<close>

text \<open>
  C1: for every string and every total of at least zero pages, the parser returns a list
  of 0-based indices that lie in \<open>[0, total_pages)\<close>, without duplicates, in ascending
  order. (The same holds for a negative total, where the list is empty.)
\<close>

theorem parse_page_range_selection:
  "\<exists>ps. parse_page_range expr total_pages = Inr ps
     \<and> (\<forall>p \<in> set ps. 0 \<le> p \<and> p < total_pages)
     \<and> distinct ps \<and> sorted ps \<and> sorted_wrt (<) ps"
proof -
  let ?ps = "spec_parse_range expr total_pages"
  have "\<forall>p \<in> set ?ps. 0 \<le> p \<and> p < total_pages"
    using token_pages_bounds by (auto simp: spec_parse_range_set)
  moreover have "sorted_wrt (<) ?ps"
    unfolding spec_parse_range_def by (rule strict_sorted_list_of_set)
  moreover have "distinct ?ps" and "sorted ?ps"
    by (simp_all add: spec_parse_range_def)
  ultimately show ?thesis
    using parse_page_range_spec by blast
qed

theorem parse_page_range_selection_witness:
  "parse_page_range ''3,1-2,2,9'' 5 = Inr [0, 1, 2]
   \<and> (\<exists>ps. parse_page_range ''3,1-2,2,9'' 5 = Inr ps
         \<and> (\<forall>p \<in> set ps. 0 \<le> p \<and> p < 5) \<and> distinct ps \<and> sorted ps \<and> sorted_wrt (<) ps)"
proof -
  have "parse_page_range ''3,1-2,2,9'' 5 = Inr [0, 1, 2]"
    by code_simp
  then show ?thesis
    using parse_page_range_selection [of "''3,1-2,2,9''" 5] by simp
qed

text \<open>
  C2: the parser never raises. Its result is the selection the specification describes:
  the union of what each token selects, where a malformed token selects nothing and does
  not stop the tokens after it. A token with a character that no integer literal has, and
  a token with two or more hyphens, are malformed; a page number outside
  \<open>[1, total_pages]\<close> selects nothing; the empty expression and an expression whose tokens
  are all malformed give the empty list.
\<close>

theorem parse_page_range_lenient:
  "parse_page_range expr total_pages = Inr (spec_parse_range expr total_pages)
   \<and> (\<forall>tok. (\<exists>c \<in> set tok. \<not> token_char c) \<longrightarrow> token_pages tok total_pages = {})
   \<and> (\<forall>tok. 2 \<le> count_list tok CHR ''-'' \<longrightarrow> token_pages tok total_pages = {})
   \<and> (\<forall>tok v. token_interval tok = Some (v, v) \<and> (v < 1 \<or> total_pages < v)
         \<longrightarrow> token_pages tok total_pages = {})
   \<and> parse_page_range '''' total_pages = Inr []
   \<and> ((\<forall>tok \<in> set (tokens expr). token_interval tok = None)
         \<longrightarrow> parse_page_range expr total_pages = Inr [])"
proof (intro conjI allI impI)
  show "parse_page_range expr total_pages = Inr (spec_parse_range expr total_pages)"
    by (rule parse_page_range_spec)
next
  fix tok
  assume "\<exists>c \<in> set tok. \<not> token_char c"
  then have "token_interval tok = None"
    using token_non_numeric by blast
  then show "token_pages tok total_pages = {}"
    by (simp add: token_pages_def)
next
  fix tok
  assume "2 \<le> count_list tok CHR ''-''"
  then have "token_interval tok = None"
    by (rule token_bad_range)
  then show "token_pages tok total_pages = {}"
    by (simp add: token_pages_def)
next
  fix tok v
  assume "token_interval tok = Some (v, v) \<and> (v < 1 \<or> total_pages < v)"
  then show "token_pages tok total_pages = {}"
    by (auto simp: token_pages_def)
next
  have "token_interval '''' = None"
    by (simp add: token_interval_def py_split_def py_int_def)
  then show "parse_page_range '''' total_pages = Inr []"
    by (simp add: parse_page_range_spec spec_parse_range_def tokens_def replace_space_def
        py_split_def token_pages_def)
next
  assume "\<forall>tok \<in> set (tokens expr). token_interval tok = None"
  then have "(\<Union>tok \<in> set (tokens expr). token_pages tok total_pages) = {}"
    by (simp add: token_pages_def)
  then show "parse_page_range expr total_pages = Inr []"
    by (simp add: parse_page_range_spec spec_parse_range_def)
qed

theorem parse_page_range_lenient_witness:
  "parse_page_range ''abc,1-x,99,2'' 5 = Inr [1]
   \<and> token_pages ''abc'' 5 = {} \<and> token_pages ''1--2'' 5 = {} \<and> token_pages ''99'' 5 = {}
   \<and> parse_page_range ''abc,1-x'' 5 = Inr []"
proof -
  note lenient = parse_page_range_lenient [of "''abc,1-x,99,2''" 5]
  note invalid = parse_page_range_lenient [of "''abc,1-x''" 5]
  have letter: "\<exists>c \<in> set ''abc''. \<not> token_char c"
    by (simp add: token_char_def is_digit_def int_space_def)
  have hyphens: "2 \<le> count_list ''1--2'' CHR ''-''"
    by simp
  have outside: "token_interval ''99'' = Some (99, 99) \<and> ((99::int) < 1 \<or> (5::int) < 99)"
    by code_simp
  have malformed: "\<forall>tok \<in> set (tokens ''abc,1-x''). token_interval tok = None"
    by code_simp
  have selection: "spec_parse_range ''abc,1-x,99,2'' 5 = [1]"
    by code_simp
  from lenient selection have "parse_page_range ''abc,1-x,99,2'' 5 = Inr [1]"
    by simp
  moreover from lenient letter have "token_pages ''abc'' 5 = {}"
    by blast
  moreover from lenient hyphens have "token_pages ''1--2'' 5 = {}"
    by blast
  moreover from lenient outside have "token_pages ''99'' 5 = {}"
    by blast
  moreover from invalid malformed have "parse_page_range ''abc,1-x'' 5 = Inr []"
    by blast
  ultimately show ?thesis
    by simp
qed

text \<open>
  C3: the two evaluations of the specification: \<open>1-3,5,7-10\<close> on ten pages selects the
  indices 0, 1, 2, 4, 6, 7, 8, 9, and \<open>abc,1-x,99\<close> on five pages selects nothing and does
  not raise.
\<close>

theorem parse_page_range_examples:
  "parse_page_range ''1-3,5,7-10'' 10 = Inr [0, 1, 2, 4, 6, 7, 8, 9]
   \<and> parse_page_range ''abc,1-x,99'' 5 = Inr []"
  by code_simp

section \<open>The loops over pages and over sources\<close>

lemma upto_map_int: "[0..int n - 1] = map int [0..<n]"
proof (induction n)
  case 0
  show ?case by simp
next
  case (Suc n)
  have "[0..int (Suc n) - 1] = [0..int n - 1] @ [int n]"
    using upto_rec2 [of 0 "int n"] by simp
  with Suc show ?case by simp
qed

lemma getitem_nth: "i < length xs \<Longrightarrow> getitem xs (int i) = Inr (xs ! i)"
  by (simp add: getitem_def)

lemma split_loop_all_ok:
  "\<forall>i \<in> set idxs. split_page lib reader i = Inr (f i) \<Longrightarrow>
     split_loop lib reader idxs results = Inr (results @ map f idxs)"
  by (induction idxs arbitrary: results) auto

lemma split_loop_first_failure:
  assumes "j < length idxs" and "split_page lib reader (idxs ! j) = Inl e"
    and "\<forall>i<j. \<exists>r. split_page lib reader (idxs ! i) = Inr r"
  shows "split_loop lib reader idxs results = Inl e"
  using assms
proof (induction idxs arbitrary: j results)
  case Nil
  then show ?case by simp
next
  case (Cons idx idxs)
  show ?case
  proof (cases j)
    case 0
    with Cons.prems show ?thesis by simp
  next
    case (Suc j')
    with Cons.prems(3) obtain r where r: "split_page lib reader idx = Inr r"
      by fastforce
    have "split_loop lib reader idxs (results @ [r]) = Inl e"
    proof (rule Cons.IH [of j'])
      show "j' < length idxs" using Cons.prems(1) Suc by simp
      show "split_page lib reader (idxs ! j') = Inl e" using Cons.prems(2) Suc by simp
      show "\<forall>i<j'. \<exists>r. split_page lib reader (idxs ! i) = Inr r"
        using Cons.prems(3) Suc by fastforce
    qed
    with r show ?thesis by simp
  qed
qed

lemma merge_loop_all_ok:
  "map (PdfReader lib) files = map Inr docs \<Longrightarrow>
     merge_loop lib files merger =
       Inr (merger\<lparr>pdf_pages := pdf_pages merger @ concat (map pdf_pages docs)\<rparr>)"
proof (induction files arbitrary: docs merger)
  case Nil
  then show ?case by simp
next
  case (Cons f files)
  then obtain d ds where docs: "docs = d # ds" and d: "PdfReader lib f = Inr d"
    and ds: "map (PdfReader lib) files = map Inr ds"
    by (cases docs) auto
  show ?case
    by (simp add: docs append_def d Cons.IH [OF ds])
qed

section \<open>Properties of splitting\<close>

text \<open>
  C4: for a document that can be read and whose pages can each be written, splitting in
  mode \<open>all\<close> gives exactly one output per page; the output at position \<open>i\<close> holds page
  \<open>i\<close> and is named \<open>page_{i+1}.pdf\<close>, so the outputs are in ascending page order.
\<close>

theorem split_pdf_all:
  assumes "PdfReader lib input_bytes = Inr reader"
    and "\<forall>i < length (pdf_pages reader).
           write_pdf lib (add_page PdfWriter (pdf_pages reader ! i)) = Inr (out i)"
  shows "\<exists>results.
           split_pdf lib input_bytes ''all'' page_range = Inr results
           \<and> length results = length (pdf_pages reader)
           \<and> (\<forall>i < length (pdf_pages reader).
                 results ! i = (''page_'' @ py_str (int i + 1) @ ''.pdf'', out i))"
proof -
  let ?n = "length (pdf_pages reader)"
  let ?f = "\<lambda>k. (''page_'' @ py_str (k + 1) @ ''.pdf'', out (nat k))"
  have "\<forall>k \<in> set (map int [0..<?n]). split_page lib reader k = Inr (?f k)"
    using assms(2) by (auto simp: split_page_def getitem_nth)
  then have "split_loop lib reader (map int [0..<?n]) [] = Inr ([] @ map ?f (map int [0..<?n]))"
    by (rule split_loop_all_ok)
  then have "split_pdf lib input_bytes ''all'' page_range = Inr (map ?f (map int [0..<?n]))"
    by (simp add: split_pdf_def assms(1) pages_to_split_def upto_map_int)
  then show ?thesis
    by simp
qed

theorem split_pdf_all_witness:
  "split_pdf byte_pypdf [7, 8, 9] ''all'' '''' =
     Inr [(''page_1.pdf'', [7]), (''page_2.pdf'', [8]), (''page_3.pdf'', [9])]"
proof -
  let ?reader = "\<lparr>pdf_pages = [7, 8, 9 :: 8 word], pdf_metadata = (None :: unit option)\<rparr>"
  have r: "PdfReader byte_pypdf [7, 8, 9] = Inr ?reader"
    by (simp add: byte_pypdf_def)
  have w: "\<forall>i < length (pdf_pages ?reader).
             write_pdf byte_pypdf (add_page PdfWriter (pdf_pages ?reader ! i))
               = Inr ([[7], [8], [9]] ! i)"
    by (simp add: byte_pypdf_def add_page_def PdfWriter_def All_less_Suc numeral_3_eq_3)
  from split_pdf_all [OF r w, of "''''"] obtain results where
    res: "split_pdf byte_pypdf [7, 8, 9] ''all'' '''' = Inr results"
    and len: "length results = 3"
    and nth: "\<forall>i < 3. results ! i = (''page_'' @ py_str (int i + 1) @ ''.pdf'', [[7], [8], [9]] ! i)"
    by auto
  have names: "py_str 1 = ''1''" "py_str 2 = ''2''" "py_str 3 = ''3''"
    by (simp_all add: py_str_def nat_digits.simps)
  from len obtain a b c where abc: "results = [a, b, c]"
    by (auto simp: numeral_3_eq_3 length_Suc_conv)
  from nth have "results ! 0 = (''page_1.pdf'', [7])"
    and "results ! Suc 0 = (''page_2.pdf'', [8])"
    and "results ! Suc (Suc 0) = (''page_3.pdf'', [9])"
    using names by (simp_all add: All_less_Suc numeral_3_eq_3)
  with abc res show ?thesis
    by simp
qed

text \<open>
  C7: for a document that can be read, splitting in a mode other than \<open>all\<close> with a range
  expression that selects no page returns the empty list of outputs and does not raise;
  the empty expression is such an expression.
\<close>

theorem split_pdf_empty_selection:
  assumes "PdfReader lib input_bytes = Inr reader" and "mode \<noteq> ''all''"
  shows "(parse_page_range expr (int (length (pdf_pages reader))) = Inr []
            \<longrightarrow> split_pdf lib input_bytes mode expr = Inr [])
         \<and> split_pdf lib input_bytes mode '''' = Inr []"
proof -
  have "parse_page_range '''' (int (length (pdf_pages reader))) = Inr []"
    by (simp add: parse_page_range_spec spec_parse_range_def tokens_def replace_space_def
        py_split_def token_pages_def token_interval_def py_int_def)
  then show ?thesis
    using assms by (simp add: split_pdf_def pages_to_split_def)
qed

theorem split_pdf_empty_selection_witness:
  "split_pdf byte_pypdf [7, 8, 9] ''range'' ''0,4-6,x'' = Inr []
   \<and> split_pdf byte_pypdf [7, 8, 9] ''range'' '''' = Inr []"
proof -
  let ?reader = "\<lparr>pdf_pages = [7, 8, 9 :: 8 word], pdf_metadata = (None :: unit option)\<rparr>"
  have r: "PdfReader byte_pypdf [7, 8, 9] = Inr ?reader"
    by (simp add: byte_pypdf_def)
  have m: "''range'' \<noteq> ''all''"
    by simp
  have e: "parse_page_range ''0,4-6,x'' (int (length (pdf_pages ?reader))) = Inr []"
    by code_simp
  from split_pdf_empty_selection [OF r m, of "''0,4-6,x''"] e show ?thesis
    by blast
qed

text \<open>
  C8: splitting stops at the first selected page whose output cannot be built: when the
  output of some selected page raises, the whole operation raises the error of the first
  such page, and the outputs built before it are not returned.
\<close>

theorem split_pdf_fail_fast:
  assumes "PdfReader lib input_bytes = Inr reader"
    and "pages_to_split reader mode page_range = Inr idxs"
    and "k < length idxs" and "split_page lib reader (idxs ! k) = Inl e"
  shows "\<exists>j \<le> k. \<exists>e'. split_page lib reader (idxs ! j) = Inl e'
           \<and> (\<forall>i < j. \<exists>r. split_page lib reader (idxs ! i) = Inr r)
           \<and> split_pdf lib input_bytes mode page_range = Inl e'"
proof -
  let ?fails = "\<lambda>i. \<exists>e'. split_page lib reader (idxs ! i) = Inl e'"
  define j where "j = (LEAST i. ?fails i)"
  have "?fails k"
    using assms(4) by blast
  then have fj: "?fails j" and jk: "j \<le> k"
    unfolding j_def by (rule LeastI, rule Least_le)
  then obtain e' where e': "split_page lib reader (idxs ! j) = Inl e'"
    by blast
  have before: "\<forall>i < j. \<exists>r. split_page lib reader (idxs ! i) = Inr r"
  proof (intro allI impI)
    fix i
    assume "i < j"
    then have "\<not> ?fails i"
      unfolding j_def by (rule not_less_Least)
    then show "\<exists>r. split_page lib reader (idxs ! i) = Inr r"
      by (cases "split_page lib reader (idxs ! i)") auto
  qed
  have "j < length idxs"
    using jk assms(3) by simp
  then have "split_loop lib reader idxs [] = Inl e'"
    using e' before by (rule split_loop_first_failure)
  then have "split_pdf lib input_bytes mode page_range = Inl e'"
    by (simp add: split_pdf_def assms(1,2))
  with e' before jk show ?thesis
    by blast
qed

theorem split_pdf_fail_fast_witness:
  "split_pdf byte_pypdf [7, 255, 9, 255] ''all'' '''' = Inl (LibraryError ''cannot write'')
   \<and> (\<exists>j \<le> 3. \<exists>e'.
         split_page byte_pypdf \<lparr>pdf_pages = [7, 255, 9, 255], pdf_metadata = None\<rparr>
           ([0, 1, 2, 3] ! j) = Inl e'
         \<and> (\<forall>i < j. \<exists>r.
               split_page byte_pypdf \<lparr>pdf_pages = [7, 255, 9, 255], pdf_metadata = None\<rparr>
                 ([0, 1, 2, 3] ! i) = Inr r)
         \<and> split_pdf byte_pypdf [7, 255, 9, 255] ''all'' '''' = Inl e')"
proof -
  let ?reader = "\<lparr>pdf_pages = [7, 255, 9, 255 :: 8 word], pdf_metadata = (None :: unit option)\<rparr>"
  have r: "PdfReader byte_pypdf [7, 255, 9, 255] = Inr ?reader"
    by (simp add: byte_pypdf_def)
  have p: "pages_to_split ?reader ''all'' '''' = Inr [0, 1, 2, 3]"
    by code_simp
  have k: "3 < length [0, 1, 2, 3 :: int]"
    by simp
  have f: "split_page byte_pypdf ?reader ([0, 1, 2, 3] ! 3) = Inl (LibraryError ''cannot write'')"
    by code_simp
  have "split_pdf byte_pypdf [7, 255, 9, 255] ''all'' '''' = Inl (LibraryError ''cannot write'')"
    by code_simp
  with split_pdf_fail_fast [OF r p k f] show ?thesis
    by simp
qed

section \<open>Properties of merging\<close>

text \<open>
  C5: for sources that can all be read, merging writes the document whose pages are the
  pages of the sources, source after source in the order given and each source's pages in
  their own order. For two sources \<open>A\<close> and \<open>B\<close> the pages are those of \<open>A\<close> followed by
  those of \<open>B\<close>, and their number is the sum of the two page counts. Where the library
  reads back what it writes, the returned bytes read as exactly these pages.
\<close>

theorem merge_pdfs_page_order:
  fixes lib :: "('p, 'm) pypdf"
  assumes "map (PdfReader lib) files = map Inr docs"
  shows "\<exists>merged.
           merge_loop lib files PdfWriter = Inr merged
           \<and> merge_pdfs lib files = write_pdf lib merged
           \<and> pdf_pages merged = concat (map pdf_pages docs)
           \<and> (\<forall>a b. docs = [a, b] \<longrightarrow>
                 pdf_pages merged = pdf_pages a @ pdf_pages b
                 \<and> length (pdf_pages merged) = length (pdf_pages a) + length (pdf_pages b))
           \<and> ((\<forall>d out. write_pdf lib d = Inr out \<longrightarrow>
                   (\<exists>d'. PdfReader lib out = Inr d' \<and> pdf_pages d' = pdf_pages d))
                \<longrightarrow> (\<forall>out. merge_pdfs lib files = Inr out \<longrightarrow>
                       (\<exists>d'. PdfReader lib out = Inr d'
                          \<and> pdf_pages d' = concat (map pdf_pages docs))))"
proof -
  define merged :: "('p, 'm) pdf" where
    "merged = \<lparr>pdf_pages = concat (map pdf_pages docs), pdf_metadata = None\<rparr>"
  have loop: "merge_loop lib files PdfWriter = Inr merged"
    using merge_loop_all_ok [OF assms, of PdfWriter] by (simp add: merged_def PdfWriter_def)
  then have out: "merge_pdfs lib files = write_pdf lib merged"
    by (simp add: merge_pdfs_def)
  have pages: "pdf_pages merged = concat (map pdf_pages docs)"
    by (simp add: merged_def PdfWriter_def)
  have two: "\<forall>a b. docs = [a, b] \<longrightarrow>
               pdf_pages merged = pdf_pages a @ pdf_pages b
               \<and> length (pdf_pages merged) = length (pdf_pages a) + length (pdf_pages b)"
    by (simp add: merged_def PdfWriter_def)
  have reread: "(\<forall>d out. write_pdf lib d = Inr out \<longrightarrow>
                  (\<exists>d'. PdfReader lib out = Inr d' \<and> pdf_pages d' = pdf_pages d))
              \<longrightarrow> (\<forall>out. merge_pdfs lib files = Inr out \<longrightarrow>
                     (\<exists>d'. PdfReader lib out = Inr d'
                        \<and> pdf_pages d' = concat (map pdf_pages docs)))"
    using out pages by metis
  from loop out pages two reread show ?thesis
    by blast
qed

theorem merge_pdfs_page_order_witness:
  "merge_pdfs byte_pypdf [[1, 2], [3]] = Inr [1, 2, 3]
   \<and> PdfReader byte_pypdf [1, 2, 3] = Inr \<lparr>pdf_pages = [1, 2] @ [3], pdf_metadata = None\<rparr>"
proof -
  let ?a = "\<lparr>pdf_pages = [1, 2 :: 8 word], pdf_metadata = (None :: unit option)\<rparr>"
  let ?b = "\<lparr>pdf_pages = [3 :: 8 word], pdf_metadata = (None :: unit option)\<rparr>"
  have r: "map (PdfReader byte_pypdf) [[1, 2], [3]] = map Inr [?a, ?b]"
    by (simp add: byte_pypdf_def)
  have reread: "\<forall>d out. write_pdf byte_pypdf d = Inr out \<longrightarrow>
                (\<exists>d'. PdfReader byte_pypdf out = Inr d' \<and> pdf_pages d' = pdf_pages d)"
    by (auto simp: byte_pypdf_def split: if_splits)
  from merge_pdfs_page_order [OF r] obtain merged where
    m: "merge_pdfs byte_pypdf [[1, 2], [3]] = write_pdf byte_pypdf merged"
    and p: "pdf_pages merged = pdf_pages ?a @ pdf_pages ?b"
    and n: "length (pdf_pages merged) = length (pdf_pages ?a) + length (pdf_pages ?b)"
    by blast
  from p have "write_pdf byte_pypdf merged = Inr [1, 2, 3]"
    by (simp add: byte_pypdf_def)
  with m show ?thesis
    by (simp add: byte_pypdf_def)
qed



section \<open>Properties of compressing\<close>

text \<open>
  C6: the statistics hold the two sizes; with a positive original size the reduction is
  the float value of \<open>((original_size - compressed_size) / original_size) * 100\<close>, with an
  original size of zero it is 0, and it never exceeds 100. The bound holds for every
  rounding \<open>fl\<close> that is monotone and leaves 1 and 100 as they are, as rounding to the
  nearest float does. The statistics \<open>compress_pdf\<close> returns are these.
\<close>

theorem compression_stats_reduction:
  assumes "mono fl" and "fl 1 = 1" and "fl 100 = 100"
  shows "original_size (compression_stats fl input_bytes output_bytes) = int (length input_bytes)
         \<and> compressed_size (compression_stats fl input_bytes output_bytes)
             = int (length output_bytes)
         \<and> (0 < length input_bytes \<longrightarrow>
               reduction (compression_stats fl input_bytes output_bytes)
                 = fl (fl (real_of_int (int (length input_bytes) - int (length output_bytes))
                           / real_of_int (int (length input_bytes))) * 100))
         \<and> (length input_bytes = 0 \<longrightarrow>
               reduction (compression_stats fl input_bytes output_bytes) = 0)
         \<and> reduction (compression_stats fl input_bytes output_bytes) \<le> 100
         \<and> (\<forall>out st. compress_pdf lib fl input_bytes quality = Inr (out, st) \<longrightarrow>
               st = compression_stats fl input_bytes out)"
proof -
  let ?o = "int (length input_bytes)" and ?c = "int (length output_bytes)"
  have bound: "fl (fl (real_of_int (?o - ?c) / real_of_int ?o) * 100) \<le> 100"
    if pos: "0 < length input_bytes"
  proof -
    have "real_of_int (?o - ?c) / real_of_int ?o \<le> 1"
      using pos by simp
    then have "fl (real_of_int (?o - ?c) / real_of_int ?o) \<le> fl 1"
      by (rule monoD [OF assms(1)])
    then have "fl (real_of_int (?o - ?c) / real_of_int ?o) * 100 \<le> 100"
      using assms(2) by simp
    then have "fl (fl (real_of_int (?o - ?c) / real_of_int ?o) * 100) \<le> fl 100"
      by (rule monoD [OF assms(1)])
    then show ?thesis
      using assms(3) by simp
  qed
  have "reduction (compression_stats fl input_bytes output_bytes) \<le> 100"
    using bound by (simp add: compression_stats_def Let_def truediv_def fmul_def)
  moreover have "\<forall>out st. compress_pdf lib fl input_bytes quality = Inr (out, st) \<longrightarrow>
                   st = compression_stats fl input_bytes out"
    by (auto simp: compress_pdf_def Let_def split: sum.splits)
  ultimately show ?thesis
    by (simp add: compression_stats_def Let_def truediv_def fmul_def)
qed

theorem compression_stats_reduction_witness:
  "reduction (compression_stats (\<lambda>x. x) [1, 2, 3, 4] [1]) = 75
   \<and> reduction (compression_stats (\<lambda>x. x) [1, 2, 3, 4] [1]) \<le> 100
   \<and> reduction (compression_stats (\<lambda>x. x) [] [1]) = 0
   \<and> compress_pdf byte_pypdf (\<lambda>x. x) [1, 2, 3, 4] ''low''
       = Inr ([1, 2, 3, 4], compression_stats (\<lambda>x. x) [1, 2, 3, 4] [1, 2, 3, 4])"
proof -
  have m: "mono (\<lambda>x :: real. x)"
    by (simp add: mono_def)
  have one: "(\<lambda>x :: real. x) 1 = 1" and hundred: "(\<lambda>x :: real. x) 100 = 100"
    by simp_all
  note full = compression_stats_reduction [OF m one hundred, of "[1, 2, 3, 4]" "[1]" byte_pypdf "''low''"]
  note empty = compression_stats_reduction [OF m one hundred, of "[]" "[1]" byte_pypdf "''low''"]
  have pos: "0 < length [1, 2, 3, 4 :: 8 word]" and zero: "length ([] :: bytes) = 0"
    by simp_all
  have run: "compress_pdf byte_pypdf (\<lambda>x. x) [1, 2, 3, 4] ''low''
               = Inr ([1, 2, 3, 4], compression_stats (\<lambda>x. x) [1, 2, 3, 4] [1, 2, 3, 4])"
    by (simp add: compress_pdf_def byte_pypdf_def add_page_def PdfWriter_def)
  from full pos have "reduction (compression_stats (\<lambda>x. x) [1, 2, 3, 4] [1]) = 75"
    by simp
  moreover from full have "reduction (compression_stats (\<lambda>x. x) [1, 2, 3, 4] [1]) \<le> 100"
    by blast
  moreover from empty zero have "reduction (compression_stats (\<lambda>x. x) [] [1]) = 0"
    by blast
  ultimately show ?thesis
    using run by simp
qed

text \<open>
  C10: the quality argument is never read: for one input, any two quality values give the
  same result, bytes and statistics alike (or the same error).
\<close>

theorem compress_pdf_quality_unused:
  "compress_pdf lib fl input_bytes q1 = compress_pdf lib fl input_bytes q2"
  by (simp add: compress_pdf_def)

end
